theory Spec2Isabelle
  imports Main "HOL-Library.Sublist" "HOL-Library.Word"
begin

section \<open>The JavaScript runtime, as far as the client uses it\<close>

text \<open>
  A JavaScript string is a sequence of 16-bit code units. A string that is a value (of a
  path or query parameter) is a list of such units, so that it can hold a surrogate
  without its partner, which \<open>encodeURIComponent\<close> refuses. Templates, parameter names and
  every text the client produces are taken as \<open>string\<close>, a \<open>char\<close> read as the code unit of
  the same number (0 to 255); \<open>units\<close> gives such a text as a value. The values
  considered are the primitive ones: strings, numbers, booleans, \<open>undefined\<close> and
  \<open>null\<close>. A number is a value
  of an arbitrary type \<open>'n\<close>; its conversion to a string (Number::toString) is passed to
  every function that needs it as \<open>numToString\<close>, so nothing below depends on how a double
  is printed.
\<close>

definition units :: "string \<Rightarrow> 16 word list" where
  "units s = map (\<lambda>c. of_nat (of_char c)) s"

datatype 'n jsval =
    JString "16 word list"
  | JNumber 'n
  | JBoolean bool
  | JUndefined
  | JNull

fun typeof :: "'n jsval \<Rightarrow> string" where
  "typeof (JString s) = ''string''"
| "typeof (JNumber n) = ''number''"
| "typeof (JBoolean b) = ''boolean''"
| "typeof JUndefined = ''undefined''"
| "typeof JNull = ''object''"

text \<open>ToString of a primitive value, as \<open>encodeURIComponent(value)\<close> applies it.\<close>

fun toString :: "('n \<Rightarrow> string) \<Rightarrow> 'n jsval \<Rightarrow> 16 word list" where
  "toString numToString (JString s) = s"
| "toString numToString (JNumber n) = units (numToString n)"
| "toString numToString (JBoolean b) = units (if b then ''true'' else ''false'')"
| "toString numToString JUndefined = units ''undefined''"
| "toString numToString JNull = units ''null''"

datatype error =
    RequiredError string string
  | Error string
  | TypeError string
  | SyntaxError string
  | URIError string

text \<open>
  An object used as a record (\<open>pathParams\<close>, \<open>searchParams\<close>) is the list of its own
  enumerable properties in the order \<open>Object.entries\<close> yields them; a JavaScript object has
  no two properties of one name, so the keys of such a list are distinct. Reading
  \<open>obj[name]\<close> finds the own property or, failing that, a member inherited from
  \<open>Object.prototype\<close>: the inherited members are functions, \<open>__proto__\<close> is the prototype
  object, and any other name reads \<open>undefined\<close>.
\<close>

definition objectPrototypeFunctions :: "string list" where
  "objectPrototypeFunctions =
     [''constructor'', ''hasOwnProperty'', ''isPrototypeOf'', ''propertyIsEnumerable'',
      ''toLocaleString'', ''toString'', ''valueOf'', ''__defineGetter__'',
      ''__defineSetter__'', ''__lookupGetter__'', ''__lookupSetter__'']"

definition typeofProperty :: "(string \<times> 'n jsval) list \<Rightarrow> string \<Rightarrow> string" where
  "typeofProperty obj name =
     (case map_of obj name of
        Some v \<Rightarrow> typeof v
      | None \<Rightarrow>
          if name \<in> set objectPrototypeFunctions then ''function''
          else if name = ''__proto__'' then ''object''
          else ''undefined'')"

subsection \<open>encodeURIComponent\<close>

definition hexDigit :: "nat \<Rightarrow> char" where
  "hexDigit n = ''0123456789ABCDEF'' ! n"

definition percentByte :: "nat \<Rightarrow> string" where
  "percentByte n = [CHR ''%'', hexDigit (n div 16), hexDigit (n mod 16)]"

text \<open>The UTF-8 bytes of a code point.\<close>

definition utf8 :: "nat \<Rightarrow> nat list" where
  "utf8 n =
     (if n < 128 then [n]
      else if n < 2048 then [192 + n div 64, 128 + n mod 64]
      else if n < 65536 then [224 + n div 4096, 128 + n div 64 mod 64, 128 + n mod 64]
      else [240 + n div 262144, 128 + n div 4096 mod 64, 128 + n div 64 mod 64,
            128 + n mod 64])"

text \<open>
  The code points of a string: a leading surrogate and the trailing surrogate after it
  make one code point, any other surrogate stands alone and the string has no code points
  (\<open>encodeURIComponent\<close> throws a URIError).
\<close>

definition isLeadSurrogate :: "16 word \<Rightarrow> bool" where
  "isLeadSurrogate c \<longleftrightarrow> 55296 \<le> unat c \<and> unat c < 56320"

definition isTrailSurrogate :: "16 word \<Rightarrow> bool" where
  "isTrailSurrogate c \<longleftrightarrow> 56320 \<le> unat c \<and> unat c < 57344"

fun codePoints :: "16 word list \<Rightarrow> nat list option" where
  "codePoints [] = Some []"
| "codePoints [c] =
     (if isLeadSurrogate c \<or> isTrailSurrogate c then None else Some [unat c])"
| "codePoints (c # d # r) =
     (if isLeadSurrogate c \<and> isTrailSurrogate d
      then map_option (\<lambda>cps. (65536 + (unat c - 55296) * 1024 + (unat d - 56320)) # cps)
             (codePoints r)
      else if isLeadSurrogate c \<or> isTrailSurrogate c then None
      else map_option (\<lambda>cps. unat c # cps) (codePoints (d # r)))"

definition uriUnescapedChars :: string where
  "uriUnescapedChars =
     ''ABCDEFGHIJKLMNOPQRSTUVWXYZabcdefghijklmnopqrstuvwxyz0123456789-_.!~*()'' @ [CHR 0x27]"

definition encodeCodePoint :: "nat \<Rightarrow> string" where
  "encodeCodePoint n =
     (case List.find (\<lambda>c. of_char c = n) uriUnescapedChars of
        Some c \<Rightarrow> [c]
      | None \<Rightarrow> concat (map percentByte (utf8 n)))"

definition encodeURIComponent :: "16 word list \<Rightarrow> error + string" where
  "encodeURIComponent s =
     (case codePoints s of
        None \<Rightarrow> Inl (URIError ''URI malformed'')
      | Some cps \<Rightarrow> Inr (concat (map encodeCodePoint cps)))"

subsection \<open>String.prototype.replace with a string pattern\<close>

text \<open>
  \<open>findSplit pat s\<close> is the text before and after the first occurrence of \<open>pat\<close> in
  \<open>s\<close>, if there is one.
\<close>

fun findSplit :: "string \<Rightarrow> string \<Rightarrow> (string \<times> string) option" where
  "findSplit pat [] = (if pat = [] then Some ([], []) else None)"
| "findSplit pat (c # cs) =
     (if prefix pat (c # cs) then Some ([], drop (length pat) (c # cs))
      else map_option (\<lambda>(pre, post). (c # pre, post)) (findSplit pat cs))"

text \<open>
  GetSubstitution for a string pattern (no captures): \<open>$$\<close> is a dollar sign, \<open>$&\<close> the
  matched text, \<open>$`\<close> the text before it and \<open>$'\<close> the text after it; every other
  character stands for itself.
\<close>

fun getSubstitution :: "string \<Rightarrow> string \<Rightarrow> string \<Rightarrow> string \<Rightarrow> string" where
  "getSubstitution matched pre post [] = []"
| "getSubstitution matched pre post [c] = [c]"
| "getSubstitution matched pre post (c # d # r) =
     (if c = CHR ''$'' \<and> d = CHR ''$'' then CHR ''$'' # getSubstitution matched pre post r
      else if c = CHR ''$'' \<and> d = CHR ''&'' then matched @ getSubstitution matched pre post r
      else if c = CHR ''$'' \<and> d = CHR 0x60 then pre @ getSubstitution matched pre post r
      else if c = CHR ''$'' \<and> d = CHR 0x27 then post @ getSubstitution matched pre post r
      else c # getSubstitution matched pre post (d # r))"

definition replace :: "string \<Rightarrow> string \<Rightarrow> string \<Rightarrow> string" where
  "replace s pat replacement =
     (case findSplit pat s of
        None \<Rightarrow> s
      | Some (pre, post) \<Rightarrow> pre @ getSubstitution pat pre post replacement @ post)"

subsection \<open>URLSearchParams\<close>

text \<open>
  The serializer of \<open>URLSearchParams\<close> (application/x-www-form-urlencoded) writes a space
  as \<open>+\<close>, keeps letters, digits and \<open>* - . _\<close>, and percent-encodes every other byte of a
  name or a value; the pairs are joined by \<open>&\<close>.
\<close>

definition formSafe :: "char \<Rightarrow> bool" where
  "formSafe c \<longleftrightarrow>
     c \<in> set ''ABCDEFGHIJKLMNOPQRSTUVWXYZabcdefghijklmnopqrstuvwxyz0123456789*-._''"

definition formEncode :: "string \<Rightarrow> string" where
  "formEncode s =
     concat (map (\<lambda>c. if c = CHR '' '' then ''+''
                       else if formSafe c then [c]
                       else concat (map percentByte (utf8 (of_char c)))) s)"

fun joinWith :: "string \<Rightarrow> string list \<Rightarrow> string" where
  "joinWith sep [] = []"
| "joinWith sep [x] = x"
| "joinWith sep (x # y # r) = x @ sep @ joinWith sep (y # r)"

definition urlSearchParamsToString :: "(string \<times> string) list \<Rightarrow> string" where
  "urlSearchParamsToString params =
     joinWith ''&'' (map (\<lambda>(name, v). formEncode name @ ''='' @ formEncode v) params)"

subsection \<open>The URL object\<close>

text \<open>
  \<open>new URL(input, base)\<close> parses and normalises the reference and throws a TypeError
  when it is not valid. That is the runtime's work: the constructor is a parameter
  \<open>newURL\<close> of \<open>createUrl\<close>, giving the error or a URL object of an arbitrary type.
  \<open>recordURL\<close> is the constructor that accepts every reference and keeps its two
  arguments; the examples use it to show what \<open>createUrl\<close> hands over.
\<close>

datatype url = URL string string

definition recordURL :: "string \<Rightarrow> string \<Rightarrow> error + url" where
  "recordURL input base = Inr (URL input base)"

section \<open>The client\<close>

text \<open>
  A plain object with its integrity level: \<open>Object.seal\<close> forbids adding and deleting
  properties, \<open>Object.freeze\<close> forbids writing them as well. The source is a module, hence
  strict code, where a refused write or delete throws a TypeError.
\<close>

record jsObject =
  properties :: "(string \<times> string) list"
  extensible :: bool
  configurable :: bool
  writable :: bool

definition seal :: "jsObject \<Rightarrow> jsObject" where
  "seal obj = obj\<lparr>extensible := False, configurable := False\<rparr>"

definition freeze :: "jsObject \<Rightarrow> jsObject" where
  "freeze obj = obj\<lparr>extensible := False, configurable := False, writable := False\<rparr>"

definition setProperty :: "jsObject \<Rightarrow> string \<Rightarrow> string \<Rightarrow> error + jsObject" where
  "setProperty obj name v =
     (if name \<in> fst ` set (properties obj) then
        if writable obj
        then Inr (obj\<lparr>properties := map (\<lambda>(k, w). if k = name then (k, v) else (k, w))
                                          (properties obj)\<rparr>)
        else Inl (TypeError ''Cannot assign to read only property'')
      else if extensible obj
        then Inr (obj\<lparr>properties := properties obj @ [(name, v)]\<rparr>)
        else Inl (TypeError ''Cannot add property, object is not extensible''))"

definition deleteProperty :: "jsObject \<Rightarrow> string \<Rightarrow> error + jsObject" where
  "deleteProperty obj name =
     (if name \<in> fst ` set (properties obj) then
        if configurable obj
        then Inr (obj\<lparr>properties := filter (\<lambda>(k, w). k \<noteq> name) (properties obj)\<rparr>)
        else Inl (TypeError ''Cannot delete property'')
      else Inr obj)"

text \<open>
  The instance: the frozen \<open>props\<close> (base path, version, and the regular expression, whose
  \<open>lastIndex\<close> is the one field a frozen \<open>props\<close> leaves writable) and the \<open>headers\<close>.
\<close>

record client =
  basePath :: string
  version :: string
  extractParamsLastIndex :: nat
  headers :: jsObject

definition EverhourApiClient :: "string \<Rightarrow> error + client" where
  "EverhourApiClient apiKey =
     (let propsVersion = ''1.2'';
          headers0 = seal \<lparr>properties = [(''Content-Type'', ''application/json''),
                                          (''X-Api-Key'', []),
                                          (''X-Accept-Version'', propsVersion)],
                           extensible = True, configurable = True, writable = True\<rparr>
      in case setProperty headers0 ''X-Api-Key'' apiKey of
           Inl e \<Rightarrow> Inl e
         | Inr h \<Rightarrow> Inr \<lparr>basePath = ''https://api.everhour.com'', version = propsVersion,
                         extractParamsLastIndex = 0, headers = freeze h\<rparr>)"

subsection \<open>createUrl\<close>

text \<open>
  The matches of \<open>/(?<=\{)[^}]+(?=})/g\<close> from left to right. The flag says whether the
  code unit before the current position is an opening brace. A match starts after an
  opening brace, takes every code unit up to the next closing brace, which must exist, and
  is not empty; the search goes on at that closing brace.
\<close>

function extractParams :: "bool \<Rightarrow> string \<Rightarrow> string list" where
  "extractParams afterBrace [] = []"
| "extractParams afterBrace (c # cs) =
     (if afterBrace \<and> c \<noteq> CHR ''}'' \<and> dropWhile (\<lambda>d. d \<noteq> CHR ''}'') cs \<noteq> []
      then (c # takeWhile (\<lambda>d. d \<noteq> CHR ''}'') cs)
             # extractParams (last (c # takeWhile (\<lambda>d. d \<noteq> CHR ''}'') cs) = CHR ''{'')
                 (dropWhile (\<lambda>d. d \<noteq> CHR ''}'') cs)
      else extractParams (c = CHR ''{'') cs)"
  by pat_completeness auto
termination
  by (relation "measure (\<lambda>(afterBrace, s). length s)")
     (auto simp: less_Suc_eq_le length_dropWhile_le)

text \<open>
  \<open>path.match(this.props.extractParams)\<close>: with the global flag, \<open>match\<close> sets
  \<open>lastIndex\<close> to 0 before it searches and the last, failing search leaves it at 0; the
  result is \<open>null\<close> when there is no match.
\<close>

definition stringMatch :: "client \<Rightarrow> string \<Rightarrow> string list option \<times> client" where
  "stringMatch this path =
     (let this0 = this\<lparr>extractParamsLastIndex := 0\<rparr>;
          ms = extractParams False path
      in (if ms = [] then None else Some ms, this0\<lparr>extractParamsLastIndex := 0\<rparr>))"

definition requiredMessage :: "string \<Rightarrow> string \<Rightarrow> string" where
  "requiredMessage param ty =
     ''Required parameter '' @ param @ '' was undefined or had the wrong type: '' @ ty @ ''.''"

fun checkRequired :: "(string \<times> 'n jsval) list \<Rightarrow> string list \<Rightarrow> error option" where
  "checkRequired pathParams [] = None"
| "checkRequired pathParams (param # rest) =
     (if typeofProperty pathParams param \<noteq> ''string'' \<and>
         typeofProperty pathParams param \<noteq> ''number''
      then Some (RequiredError param
                   (requiredMessage param (typeofProperty pathParams param)))
      else checkRequired pathParams rest)"

text \<open>
  The two \<open>forEach\<close> loops. \<open>encodeURIComponent\<close> is applied to the value of every entry
  of \<open>pathParams\<close> and to every value of \<open>searchParams\<close> that is not \<open>undefined\<close>; when it
  throws, the loop and \<open>createUrl\<close> end with its error.
\<close>

fun substitute ::
  "('n \<Rightarrow> string) \<Rightarrow> string \<Rightarrow> (string \<times> 'n jsval) list \<Rightarrow> error + string" where
  "substitute numToString path [] = Inr path"
| "substitute numToString path ((param, v) # rest) =
     (case encodeURIComponent (toString numToString v) of
        Inl e \<Rightarrow> Inl e
      | Inr encoded \<Rightarrow>
          substitute numToString (replace path (''{'' @ param @ ''}'') encoded) rest)"

fun appendParams ::
  "('n \<Rightarrow> string) \<Rightarrow> (string \<times> string) list \<Rightarrow> (string \<times> 'n jsval) list
     \<Rightarrow> error + (string \<times> string) list" where
  "appendParams numToString params [] = Inr params"
| "appendParams numToString params ((param, v) # rest) =
     (if v \<noteq> JUndefined
      then case encodeURIComponent (toString numToString v) of
             Inl e \<Rightarrow> Inl e
           | Inr encoded \<Rightarrow> appendParams numToString (params @ [(param, encoded)]) rest
      else appendParams numToString params rest)"

definition createUrl ::
  "(string \<Rightarrow> string \<Rightarrow> error + 'u) \<Rightarrow> ('n \<Rightarrow> string) \<Rightarrow> client \<Rightarrow> string
     \<Rightarrow> (string \<times> 'n jsval) list \<Rightarrow> (string \<times> 'n jsval) list \<Rightarrow> (error + 'u) \<times> client" where
  "createUrl newURL numToString this path pathParams searchParams =
     (let (requiredParams, this1) = stringMatch this path
      in case (case requiredParams of
                 None \<Rightarrow> None
               | Some rs \<Rightarrow> checkRequired pathParams rs) of
           Some e \<Rightarrow> (Inl e, this1)
         | None \<Rightarrow>
             (case substitute numToString path pathParams of
                Inl e \<Rightarrow> (Inl e, this1)
              | Inr path1 \<Rightarrow>
                  (case appendParams numToString [] searchParams of
                     Inl e \<Rightarrow> (Inl e, this1)
                   | Inr params \<Rightarrow>
                       (newURL (if length params > 0
                                then path1 @ ''?'' @ urlSearchParamsToString params
                                else path1)
                          (basePath this1), this1))))"

subsection \<open>apiRequest\<close>

text \<open>
  The transport \<open>fetch\<close>, the decoder behind \<open>response.json()\<close> and \<open>JSON.stringify\<close>
  belong to the runtime and are parameters. A rejected \<open>fetch\<close> and a body that does not
  decode are errors, which \<open>apiRequest\<close> lets pass. A payload is \<open>None\<close> when the argument is
  \<open>undefined\<close>. The status is a natural number, printed in decimal.
\<close>

datatype httpMethod = DELETE | GET | POST | PUT

record requestInit =
  requestMethod :: httpMethod
  requestHeaders :: jsObject
  body :: "string option"

record response =
  status :: nat
  responseText :: string

function numberToString :: "nat \<Rightarrow> string" where
  "numberToString n =
     (if n < 10 then [''0123456789'' ! n]
      else numberToString (n div 10) @ [''0123456789'' ! (n mod 10)])"
  by pat_completeness auto
termination
  by (relation "measure id") auto

definition requestOptions ::
  "('p \<Rightarrow> string) \<Rightarrow> client \<Rightarrow> httpMethod \<Rightarrow> 'p option \<Rightarrow> requestInit" where
  "requestOptions stringify this m payload =
     (let options = \<lparr>requestMethod = m, requestHeaders = headers this, body = None\<rparr>
      in case payload of
           None \<Rightarrow> options
         | Some p \<Rightarrow> options\<lparr>body := Some (stringify p)\<rparr>)"

definition statusMessage :: "response \<Rightarrow> string" where
  "statusMessage r =
     ''Status: '' @ numberToString (status r) @ '', Text: '' @ [CHR 0x27] @ responseText r
       @ [CHR 0x27]"

definition apiRequest ::
  "('u \<Rightarrow> requestInit \<Rightarrow> error + response) \<Rightarrow> (string \<Rightarrow> error + 'j) \<Rightarrow> ('p \<Rightarrow> string)
     \<Rightarrow> client \<Rightarrow> httpMethod \<Rightarrow> 'u \<Rightarrow> 'p option \<Rightarrow> error + 'j" where
  "apiRequest fetch jsonParse stringify this m u payload =
     (case fetch u (requestOptions stringify this m payload) of
        Inl e \<Rightarrow> Inl e
      | Inr r \<Rightarrow>
          if 200 \<le> status r \<and> status r < 300
          then jsonParse (responseText r)
          else Inl (Error (statusMessage r)))"

section \<open>Path templates\<close>

text \<open>
  A path template in the form the endpoint functions write it: literal text without
  braces, with placeholders \<open>{name}\<close> whose names are not empty and hold no brace.
  \<open>render\<close> gives the text of such a template, \<open>holes\<close> its placeholder names in order.
\<close>

datatype segment = Lit string | Hole string

fun render :: "segment list \<Rightarrow> string" where
  "render [] = []"
| "render (Lit l # segs) = l @ render segs"
| "render (Hole n # segs) = ''{'' @ n @ ''}'' @ render segs"

definition braceFree :: "string \<Rightarrow> bool" where
  "braceFree s \<longleftrightarrow> CHR ''{'' \<notin> set s \<and> CHR ''}'' \<notin> set s"

fun wellFormed :: "segment \<Rightarrow> bool" where
  "wellFormed (Lit l) = braceFree l"
| "wellFormed (Hole n) = (n \<noteq> [] \<and> braceFree n)"

fun holes :: "segment list \<Rightarrow> string list" where
  "holes [] = []"
| "holes (Lit l # segs) = holes segs"
| "holes (Hole n # segs) = n # holes segs"

text \<open>
  The effect of one \<open>path.replace(`{k}`, r)\<close> on a template: the first placeholder named
  \<open>k\<close> becomes the text \<open>r\<close>.
\<close>

fun segReplace :: "string \<Rightarrow> string \<Rightarrow> segment list \<Rightarrow> segment list" where
  "segReplace k r [] = []"
| "segReplace k r (Lit l # segs) = Lit l # segReplace k r segs"
| "segReplace k r (Hole n # segs) = (if n = k then Lit r # segs else Hole n # segReplace k r segs)"

text \<open>
  A value is encodable when \<open>encodeURIComponent\<close> accepts its string form (no surrogate
  stands alone in it); \<open>encoded\<close> is then the text \<open>encodeURIComponent\<close> returns.
\<close>

definition encodable :: "('n \<Rightarrow> string) \<Rightarrow> 'n jsval \<Rightarrow> bool" where
  "encodable ns v \<longleftrightarrow> codePoints (toString ns v) \<noteq> None"

definition encoded :: "('n \<Rightarrow> string) \<Rightarrow> 'n jsval \<Rightarrow> string" where
  "encoded ns v =
     (case codePoints (toString ns v) of
        None \<Rightarrow> []
      | Some cps \<Rightarrow> concat (map encodeCodePoint cps))"

text \<open>
  The effect of the whole \<open>forEach\<close> when every value is encodable: going through the
  template from the left, a placeholder takes the value of the first entry of its name
  that is still unused, and uses it up; a placeholder that finds no such entry stays.
  \<open>fillAll\<close> instead gives every placeholder the value the mapping has for its name.
\<close>

fun delFirst :: "string \<Rightarrow> (string \<times> 'v) list \<Rightarrow> (string \<times> 'v) list" where
  "delFirst k [] = []"
| "delFirst k ((k', v) # ps) = (if k' = k then ps else (k', v) # delFirst k ps)"

fun fillFirst :: "('n \<Rightarrow> string) \<Rightarrow> (string \<times> 'n jsval) list \<Rightarrow> segment list \<Rightarrow> segment list" where
  "fillFirst ns ps [] = []"
| "fillFirst ns ps (Lit l # segs) = Lit l # fillFirst ns ps segs"
| "fillFirst ns ps (Hole n # segs) =
     (case map_of ps n of
        None \<Rightarrow> Hole n # fillFirst ns ps segs
      | Some v \<Rightarrow> Lit (encoded ns v) # fillFirst ns (delFirst n ps) segs)"

fun fillAll :: "('n \<Rightarrow> string) \<Rightarrow> (string \<times> 'n jsval) list \<Rightarrow> segment list \<Rightarrow> segment list" where
  "fillAll ns ps [] = []"
| "fillAll ns ps (Lit l # segs) = Lit l # fillAll ns ps segs"
| "fillAll ns ps (Hole n # segs) =
     (case map_of ps n of
        None \<Rightarrow> Hole n # fillAll ns ps segs
      | Some v \<Rightarrow> Lit (encoded ns v) # fillAll ns ps segs)"

text \<open>
  The same with the mapping as a partial function, for mappings without two entries of
  one name.
\<close>

fun fillMap :: "('n \<Rightarrow> string) \<Rightarrow> (string \<rightharpoonup> 'n jsval) \<Rightarrow> segment list \<Rightarrow> segment list" where
  "fillMap ns m [] = []"
| "fillMap ns m (Lit l # segs) = Lit l # fillMap ns m segs"
| "fillMap ns m (Hole n # segs) =
     (case m n of
        None \<Rightarrow> Hole n # fillMap ns m segs
      | Some v \<Rightarrow> Lit (encoded ns v) # fillMap ns (m(n := None)) segs)"

text \<open>The path and the query parameters the loops arrive at when nothing throws.\<close>

definition substituted :: "('n \<Rightarrow> string) \<Rightarrow> string \<Rightarrow> (string \<times> 'n jsval) list \<Rightarrow> string" where
  "substituted ns path ps =
     foldl (\<lambda>p e. replace p (''{'' @ fst e @ ''}'') (encoded ns (snd e))) path ps"

definition defined :: "(string \<times> 'n jsval) list \<Rightarrow> (string \<times> 'n jsval) list" where
  "defined sp = filter (\<lambda>e. snd e \<noteq> JUndefined) sp"

definition segStep :: "('n \<Rightarrow> string) \<Rightarrow> segment list \<Rightarrow> string \<times> 'n jsval \<Rightarrow> segment list" where
  "segStep ns segs e = segReplace (fst e) (encoded ns (snd e)) segs"

text \<open>A parameter passes the check of \<open>createUrl\<close> when its type is string or number.\<close>

definition validParam :: "(string \<times> 'n jsval) list \<Rightarrow> string \<Rightarrow> bool" where
  "validParam ps p \<longleftrightarrow> typeofProperty ps p = ''string'' \<or> typeofProperty ps p = ''number''"

text \<open>The code units \<open>encodeURIComponent\<close> can produce.\<close>

definition encodedChars :: "char set" where
  "encodedChars = set (''ABCDEFGHIJKLMNOPQRSTUVWXYZabcdefghijklmnopqrstuvwxyz0123456789-_.!~*()%'' @ [CHR 0x27])"

text \<open>An instance to run the examples on: the client built for the key \<open>key\<close>.\<close>

abbreviation demoClient :: client where
  "demoClient \<equiv>
     \<lparr>basePath = ''https://api.everhour.com'', version = ''1.2'', extractParamsLastIndex = 0,
      headers = \<lparr>properties = [(''Content-Type'', ''application/json''),
                                 (''X-Api-Key'', ''key''),
                                 (''X-Accept-Version'', ''1.2'')],
                  extensible = False, configurable = False, writable = False\<rparr>\<rparr>"

section \<open>Properties of the runtime functions and of substitution\<close>

lemma hexDigit_encoded: "n < 16 \<Longrightarrow> hexDigit n \<in> encodedChars"
proof -
  assume "n < 16"
  then have "''0123456789ABCDEF'' ! n \<in> set ''0123456789ABCDEF''"
    by (intro nth_mem) simp
  moreover have "set ''0123456789ABCDEF'' \<subseteq> encodedChars"
    by (simp add: encodedChars_def)
  ultimately show ?thesis unfolding hexDigit_def by blast
qed

lemma percentByte_encoded: "n < 256 \<Longrightarrow> set (percentByte n) \<subseteq> encodedChars"
proof -
  assume "n < 256"
  then have "n div 16 < 16" by simp
  moreover have "n mod 16 < 16" by simp
  moreover have "CHR ''%'' \<in> encodedChars" by (simp add: encodedChars_def)
  ultimately show ?thesis by (simp add: percentByte_def hexDigit_encoded)
qed

lemma utf8_bytes: "n < 1114112 \<Longrightarrow> b \<in> set (utf8 n) \<Longrightarrow> b < 256"
proof -
  assume n: "n < 1114112" and b: "b \<in> set (utf8 n)"
  have m: "k mod 64 < 64" for k :: nat by simp
  have "n < 2048 \<Longrightarrow> n div 64 < 32" "n < 65536 \<Longrightarrow> n div 4096 < 16" "n div 262144 < 5"
    using n by arith+
  with b m [of n] m [of "n div 64"] m [of "n div 4096"] show ?thesis
    by (auto simp: utf8_def split: if_splits)
qed

lemma codePoints_bound: "codePoints s = Some cps \<Longrightarrow> n \<in> set cps \<Longrightarrow> n < 1114112"
proof (induction s arbitrary: cps rule: codePoints.induct)
  case 1
  then show ?case by simp
next
  case (2 c)
  have "unat c < 65536" using unsigned_less [of c] by simp
  with 2 show ?case by (auto split: if_splits)
next
  case (3 c d r)
  have c: "unat c < 65536" using unsigned_less [of c] by simp
  show ?case
  proof (cases "isLeadSurrogate c \<and> isTrailSurrogate d")
    case True
    with "3.prems" obtain cps' where
      cps: "codePoints r = Some cps'"
           "cps = (65536 + (unat c - 55296) * 1024 + (unat d - 56320)) # cps'"
      by auto
    from True have "unat c - 55296 \<le> 1023" "unat d - 56320 < 1024"
      unfolding isLeadSurrogate_def isTrailSurrogate_def by linarith+
    then have "(unat c - 55296) * 1024 \<le> 1023 * 1024" "unat d - 56320 < 1024"
      by (simp_all only: mult_le_mono1)
    then have "65536 + (unat c - 55296) * 1024 + (unat d - 56320) < 1114112"
      by linarith
    with cps "3.prems"(2) "3.IH"(1) [OF True cps(1)] show ?thesis by auto
  next
    case False
    with "3.prems" obtain cps' where
      cps: "codePoints (d # r) = Some cps'" "cps = unat c # cps'"
      and ns: "\<not> (isLeadSurrogate c \<or> isTrailSurrogate c)"
      by (auto split: if_splits)
    with c "3.prems"(2) "3.IH"(2) [OF False ns cps(1)] show ?thesis by auto
  qed
qed

lemma encodeCodePoint_chars: "n < 1114112 \<Longrightarrow> set (encodeCodePoint n) \<subseteq> encodedChars"
proof (cases "List.find (\<lambda>c. of_char c = n) uriUnescapedChars")
  case None
  assume "n < 1114112"
  then have "set (percentByte b) \<subseteq> encodedChars" if "b \<in> set (utf8 n)" for b
    using that utf8_bytes percentByte_encoded by blast
  with None show ?thesis by (auto simp: encodeCodePoint_def)
next
  case (Some c)
  then have "c \<in> set uriUnescapedChars" by (auto simp: find_Some_iff)
  then have "c \<in> encodedChars" by (auto simp: uriUnescapedChars_def encodedChars_def)
  with Some show ?thesis by (simp add: encodeCodePoint_def)
qed

lemma encoded_chars: "set (encoded ns v) \<subseteq> encodedChars"
proof (cases "codePoints (toString ns v)")
  case None
  then show ?thesis by (simp add: encoded_def)
next
  case (Some cps)
  then have "set (encodeCodePoint n) \<subseteq> encodedChars" if "n \<in> set cps" for n
    using that codePoints_bound encodeCodePoint_chars by blast
  with Some show ?thesis by (auto simp: encoded_def)
qed

lemma encoded_braceFree: "braceFree (encoded ns v)"
  using encoded_chars [of ns v] by (auto simp: braceFree_def encodedChars_def)

lemma encoded_no_dollar: "CHR ''$'' \<notin> set (encoded ns v)"
  using encoded_chars [of ns v] by (auto simp: encodedChars_def)

lemma encodeURIComponent_encodable:
  "encodable ns v \<Longrightarrow> encodeURIComponent (toString ns v) = Inr (encoded ns v)"
  by (auto simp: encodable_def encodeURIComponent_def encoded_def)

lemma encodeURIComponent_malformed:
  "\<not> encodable ns v \<Longrightarrow> encodeURIComponent (toString ns v) = Inl (URIError ''URI malformed'')"
  by (auto simp: encodable_def encodeURIComponent_def)

lemma substitute_cases:
  "substitute ns path ps =
     (if list_all (\<lambda>e. encodable ns (snd e)) ps then Inr (substituted ns path ps)
      else Inl (URIError ''URI malformed''))"
proof (induction ps arbitrary: path)
  case Nil
  then show ?case by (simp add: substituted_def)
next
  case (Cons e ps)
  obtain k v where e: "e = (k, v)" by (cases e)
  show ?case
  proof (cases "encodable ns v")
    case True
    then show ?thesis
      using Cons.IH by (simp add: e encodeURIComponent_encodable substituted_def)
  next
    case False
    then show ?thesis by (simp add: e encodeURIComponent_malformed)
  qed
qed

lemma appendParams_cases:
  "appendParams ns acc sp =
     (if list_all (\<lambda>e. encodable ns (snd e)) (defined sp)
      then Inr (acc @ map (\<lambda>e. (fst e, encoded ns (snd e))) (defined sp))
      else Inl (URIError ''URI malformed''))"
proof (induction sp arbitrary: acc)
  case Nil
  then show ?case by (simp add: defined_def)
next
  case (Cons e sp)
  obtain k v where e: "e = (k, v)" by (cases e)
  show ?case
  proof (cases "v = JUndefined")
    case True
    then show ?thesis using Cons.IH by (simp add: e defined_def)
  next
    case False
    show ?thesis
    proof (cases "encodable ns v")
      case True
      then show ?thesis
        using False Cons.IH by (simp add: e encodeURIComponent_encodable defined_def)
    next
      case enc: False
      then show ?thesis using False by (simp add: e encodeURIComponent_malformed defined_def)
    qed
  qed
qed

lemma getSubstitution_plain:
  "CHR ''$'' \<notin> set r \<Longrightarrow> getSubstitution m b a r = r"
  by (induction m b a r rule: getSubstitution.induct) auto

lemma findSplit_skip:
  "pat \<noteq> [] \<Longrightarrow> hd pat \<notin> set xs \<Longrightarrow>
   findSplit pat (xs @ ys) = map_option (\<lambda>(b, a). (xs @ b, a)) (findSplit pat ys)"
proof (induction xs)
  case Nil
  then show ?case by (simp add: option.map_ident split_def)
next
  case (Cons c xs)
  then have "\<not> prefix pat (c # xs @ ys)" by (cases pat) auto
  with Cons show ?case by (simp add: option.map_comp comp_def split_def)
qed

lemma replace_skip:
  "pat \<noteq> [] \<Longrightarrow> hd pat \<notin> set xs \<Longrightarrow> CHR ''$'' \<notin> set r \<Longrightarrow>
   replace (xs @ ys) pat r = xs @ replace ys pat r"
  by (auto simp: replace_def findSplit_skip getSubstitution_plain split: option.splits)

lemma prefix_hole:
  assumes "CHR ''}'' \<notin> set k" "CHR ''}'' \<notin> set n"
  shows "prefix (k @ ''}'') (n @ ''}'' @ rest) \<longleftrightarrow> k = n"
proof
  assume "prefix (k @ ''}'') (n @ ''}'' @ rest)"
  then obtain zs where "n @ ''}'' @ rest = (k @ ''}'') @ zs" by (auto simp: prefix_def)
  then have "takeWhile (\<lambda>d. d \<noteq> CHR ''}'') (n @ CHR ''}'' # rest) = takeWhile (\<lambda>d. d \<noteq> CHR ''}'') (k @ CHR ''}'' # zs)"
    by simp
  moreover have "takeWhile (\<lambda>d. d \<noteq> CHR ''}'') k = k" "takeWhile (\<lambda>d. d \<noteq> CHR ''}'') n = n"
    using assms by (auto simp: takeWhile_eq_all_conv)
  ultimately show "k = n" using assms by (simp add: takeWhile_tail)
next
  assume "k = n" then show "prefix (k @ ''}'') (n @ ''}'' @ rest)" by simp
qed

lemma replace_render:
  assumes "\<forall>s\<in>set segs. wellFormed s" "CHR ''}'' \<notin> set k" "CHR ''$'' \<notin> set r"
  shows "replace (render segs) (''{'' @ k @ ''}'') r = render (segReplace k r segs)"
  using assms(1)
proof (induction segs)
  case Nil
  then show ?case by (simp add: replace_def)
next
  case (Cons s segs)
  show ?case
  proof (cases s)
    case (Lit l)
    with Cons.prems have "hd (''{'' @ k @ ''}'') \<notin> set l" by (simp add: braceFree_def)
    then have "replace (l @ render segs) (''{'' @ k @ ''}'') r = l @ replace (render segs) (''{'' @ k @ ''}'') r"
      using assms(3) by (intro replace_skip) auto
    with Cons Lit show ?thesis by simp
  next
    case (Hole n)
    with Cons.prems have n: "CHR ''}'' \<notin> set n" "CHR ''{'' \<notin> set n" by (auto simp: braceFree_def)
    show ?thesis
    proof (cases "n = k")
      case True
      then show ?thesis using Hole assms(3)
        by (simp add: replace_def getSubstitution_plain)
    next
      case False
      have np: "\<not> prefix (''{'' @ k @ ''}'') (''{'' @ n @ ''}'' @ render segs)"
        using prefix_hole [OF assms(2) n(1), of "render segs"] False by simp
      have "hd (''{'' @ k @ ''}'') \<notin> set (n @ ''}'')" using n by simp
      then have sk: "findSplit (''{'' @ k @ ''}'') ((n @ ''}'') @ render segs)
          = map_option (\<lambda>(b, a). ((n @ ''}'') @ b, a)) (findSplit (''{'' @ k @ ''}'') (render segs))"
        by (intro findSplit_skip) auto
      have "replace (render (Hole n # segs)) (''{'' @ k @ ''}'') r
          = ''{'' @ n @ ''}'' @ replace (render segs) (''{'' @ k @ ''}'') r"
        using np sk assms(3)
        by (auto simp: replace_def getSubstitution_plain split: option.splits)
      with Cons Hole False show ?thesis by simp
    qed
  qed
qed

lemma extractParams_skip:
  "braceFree l \<Longrightarrow> extractParams False (l @ rest) = extractParams False rest"
  by (induction l) (auto simp: braceFree_def)

lemma extractParams_closing:
  "extractParams b (CHR ''}'' # rest) = extractParams False rest"
  by simp

lemma extractParams_hole:
  assumes "n \<noteq> []" "braceFree n"
  shows "extractParams False (CHR ''{'' # n @ CHR ''}'' # rest) = n # extractParams False rest"
proof -
  obtain c cs where n: "n = c # cs" using assms(1) by (cases n) auto
  with assms(2) have c: "c \<noteq> CHR ''}''" and cs: "CHR ''}'' \<notin> set cs" "CHR ''{'' \<notin> set (c # cs)"
    by (auto simp: braceFree_def)
  have tw: "takeWhile (\<lambda>d. d \<noteq> CHR ''}'') (cs @ CHR ''}'' # rest) = cs"
    using cs(1) by (induction cs) auto
  have dw: "dropWhile (\<lambda>d. d \<noteq> CHR ''}'') (cs @ CHR ''}'' # rest) = CHR ''}'' # rest"
    using cs(1) by (induction cs) auto
  have "extractParams True (c # cs @ CHR ''}'' # rest)
      = (c # cs) # extractParams (last (c # cs) = CHR ''{'') (CHR ''}'' # rest)"
    using c by (simp add: tw dw del: last.simps)
  then show ?thesis using n by (simp del: last.simps extractParams.simps(2) add: extractParams.simps(2) [of False] extractParams_closing)
qed

lemma extractParams_render:
  "\<forall>s\<in>set segs. wellFormed s \<Longrightarrow> extractParams False (render segs) = holes segs"
proof (induction segs)
  case Nil
  then show ?case by simp
next
  case (Cons s segs)
  then show ?case
    by (cases s) (simp_all add: extractParams_skip extractParams_hole del: extractParams.simps)
qed

lemma segReplace_wellFormed:
  "\<forall>s\<in>set segs. wellFormed s \<Longrightarrow> braceFree r \<Longrightarrow> \<forall>s\<in>set (segReplace k r segs). wellFormed s"
proof (induction segs)
  case Nil
  then show ?case by simp
next
  case (Cons s segs)
  then show ?case by (cases s) auto
qed

lemma substituted_render:
  assumes "\<forall>s\<in>set segs. wellFormed s" "\<forall>e\<in>set ps. CHR ''}'' \<notin> set (fst e)"
  shows "substituted ns (render segs) ps = render (foldl (segStep ns) segs ps)"
  using assms
proof (induction ps arbitrary: segs)
  case Nil
  then show ?case by (simp add: substituted_def)
next
  case (Cons e ps)
  have wf: "\<forall>s\<in>set (segStep ns segs e). wellFormed s"
    unfolding segStep_def using Cons.prems(1) encoded_braceFree
    by (rule segReplace_wellFormed)
  have "CHR ''}'' \<notin> set (fst e)" using Cons.prems(2) by simp
  then have "replace (render segs) (''{'' @ fst e @ ''}'') (encoded ns (snd e))
      = render (segStep ns segs e)"
    unfolding segStep_def using Cons.prems(1) encoded_no_dollar
    by (intro replace_render)
  moreover have "substituted ns (render (segStep ns segs e)) ps
      = render (foldl (segStep ns) (segStep ns segs e) ps)"
    using wf Cons.prems(2) by (intro Cons.IH) auto
  ultimately show ?case by (simp add: substituted_def)
qed

lemma foldl_segStep_Lit:
  "foldl (segStep ns) (Lit l # segs) ps = Lit l # foldl (segStep ns) segs ps"
  by (induction ps arbitrary: segs) (simp_all add: segStep_def)

lemma foldl_segStep_Hole:
  "foldl (segStep ns) (Hole n # segs) ps =
     (case map_of ps n of
        None \<Rightarrow> Hole n # foldl (segStep ns) segs ps
      | Some v \<Rightarrow> Lit (encoded ns v) # foldl (segStep ns) segs (delFirst n ps))"
proof (induction ps arbitrary: segs)
  case Nil
  then show ?case by simp
next
  case (Cons e ps)
  obtain k v where e: "e = (k, v)" by (cases e)
  show ?case
  proof (cases "k = n")
    case True
    then have "segStep ns (Hole n # segs) e = Lit (encoded ns v) # segs"
      by (simp add: e segStep_def)
    then show ?thesis using True by (simp add: e foldl_segStep_Lit)
  next
    case False
    then have "segStep ns (Hole n # segs) e = Hole n # segStep ns segs e"
      by (auto simp: e segStep_def)
    then show ?thesis using False Cons.IH [of "segStep ns segs e"]
      by (simp add: e split: option.splits)
  qed
qed

lemma foldl_segStep_fillFirst:
  "foldl (segStep ns) segs ps = fillFirst ns ps segs"
proof (induction segs arbitrary: ps)
  case Nil
  show ?case by (induction ps) (simp_all add: segStep_def)
next
  case (Cons s segs)
  then show ?case
    by (cases s) (simp_all add: foldl_segStep_Lit foldl_segStep_Hole split: option.splits)
qed

lemma substituted_fillFirst:
  assumes "\<forall>s\<in>set segs. wellFormed s" "\<forall>e\<in>set ps. CHR ''}'' \<notin> set (fst e)"
  shows "substituted ns (render segs) ps = render (fillFirst ns ps segs)"
  using substituted_render [OF assms] by (simp add: foldl_segStep_fillFirst)

lemma validParam_Some: "validParam ps n \<Longrightarrow> \<exists>v. map_of ps n = Some v"
  by (cases "map_of ps n") (auto simp: validParam_def typeofProperty_def split: if_splits)

lemma map_of_delFirst_other: "m \<noteq> n \<Longrightarrow> map_of (delFirst n ps) m = map_of ps m"
  by (induction ps) auto

lemma delFirst_subset: "e \<in> set (delFirst n ps) \<Longrightarrow> e \<in> set ps"
  by (induction ps) (auto split: if_splits)

lemma delFirst_distinct: "distinct (map fst ps) \<Longrightarrow> distinct (map fst (delFirst n ps))"
proof (induction ps)
  case Nil
  then show ?case by simp
next
  case (Cons e ps)
  obtain k v where e: "e = (k, v)" by (cases e)
  from Cons.prems e have "k \<notin> fst ` set ps" by simp
  then have "k \<notin> fst ` set (delFirst n ps)" using delFirst_subset by fastforce
  with Cons e show ?case by simp
qed

lemma map_of_delFirst_same: "distinct (map fst ps) \<Longrightarrow> map_of (delFirst n ps) n = None"
proof (induction ps)
  case Nil
  then show ?case by simp
next
  case (Cons e ps)
  then show ?case by (cases e) (auto simp: map_of_eq_None_iff)
qed

lemma delFirst_commute: "delFirst m (delFirst n ps) = delFirst n (delFirst m ps)"
  by (induction ps) auto

lemma fillFirst_delFirst:
  "n \<notin> set (holes segs) \<Longrightarrow> fillFirst ns (delFirst n ps) segs = fillFirst ns ps segs"
proof (induction segs arbitrary: ps)
  case Nil
  then show ?case by simp
next
  case (Cons s segs)
  show ?case
  proof (cases s)
    case (Lit l)
    with Cons show ?thesis by simp
  next
    case (Hole m)
    with Cons.prems have mn: "m \<noteq> n" and n: "n \<notin> set (holes segs)" by auto
    have "fillFirst ns (delFirst m (delFirst n ps)) segs = fillFirst ns (delFirst m ps) segs"
      using Cons.IH [OF n, of "delFirst m ps"] by (simp add: delFirst_commute)
    then show ?thesis using Hole mn Cons.IH [OF n, of ps]
      by (simp add: map_of_delFirst_other split: option.splits)
  qed
qed

lemma fillFirst_fillAll:
  "distinct (holes segs) \<Longrightarrow> fillFirst ns ps segs = fillAll ns ps segs"
proof (induction segs)
  case Nil
  then show ?case by simp
next
  case (Cons s segs)
  then show ?case
    by (cases s) (simp_all add: fillFirst_delFirst split: option.splits)
qed

lemma fillAll_holes:
  "\<forall>n\<in>set (holes segs). validParam ps n \<Longrightarrow> holes (fillAll ns ps segs) = []"
proof (induction segs)
  case Nil
  then show ?case by simp
next
  case (Cons s segs)
  then show ?case
    by (cases s) (auto dest: validParam_Some split: option.splits)
qed

lemma fillAll_wellFormed:
  "\<forall>s\<in>set segs. wellFormed s \<Longrightarrow> \<forall>s\<in>set (fillAll ns ps segs). wellFormed s"
proof (induction segs)
  case Nil
  then show ?case by simp
next
  case (Cons s segs)
  then show ?case
    by (cases s) (auto simp: encoded_braceFree split: option.splits)
qed

lemma fillAll_no_holes: "holes segs = [] \<Longrightarrow> fillAll ns ps segs = segs"
proof (induction segs)
  case Nil
  then show ?case by simp
next
  case (Cons s segs)
  then show ?case by (cases s) simp_all
qed

lemma render_braceFree:
  "\<forall>s\<in>set segs. wellFormed s \<Longrightarrow> holes segs = [] \<Longrightarrow> braceFree (render segs)"
proof (induction segs)
  case Nil
  then show ?case by (simp add: braceFree_def)
next
  case (Cons s segs)
  then show ?case by (cases s) (auto simp: braceFree_def)
qed

lemma fillFirst_length: "length (fillFirst ns ps segs) = length segs"
proof (induction segs arbitrary: ps)
  case Nil
  then show ?case by simp
next
  case (Cons s segs)
  then show ?case by (cases s) (simp_all split: option.splits)
qed

lemma fillFirst_unmapped:
  "map_of ps x = None \<Longrightarrow> i < length segs \<Longrightarrow> segs ! i = Hole x \<Longrightarrow>
   fillFirst ns ps segs ! i = Hole x"
proof (induction segs arbitrary: ps i)
  case Nil
  then show ?case by simp
next
  case (Cons s segs)
  show ?case
  proof (cases i)
    case 0
    with Cons.prems show ?thesis by simp
  next
    case (Suc i')
    with Cons.prems have i': "i' < length segs" "segs ! i' = Hole x" by simp_all
    show ?thesis
    proof (cases s)
      case (Lit l)
      then show ?thesis using Suc Cons.IH [OF Cons.prems(1) i'] by simp
    next
      case (Hole n)
      show ?thesis
      proof (cases "map_of ps n")
        case None
        then show ?thesis using Hole Suc Cons.IH [OF Cons.prems(1) i'] by simp
      next
        case (Some v)
        with Cons.prems(1) have "n \<noteq> x" by auto
        then have "map_of (delFirst n ps) x = None"
          using Cons.prems(1) by (simp add: map_of_delFirst_other)
        from Cons.IH [OF this i'] show ?thesis using Hole Suc Some by simp
      qed
    qed
  qed
qed

lemma fillFirst_later:
  "distinct (map fst ps) \<Longrightarrow> j < i \<Longrightarrow> i < length segs \<Longrightarrow> segs ! j = Hole x \<Longrightarrow>
   segs ! i = Hole x \<Longrightarrow> fillFirst ns ps segs ! i = Hole x"
proof (induction segs arbitrary: ps i j)
  case Nil
  then show ?case by simp
next
  case (Cons s segs)
  from Cons.prems obtain i' where i: "i = Suc i'" by (cases i) auto
  with Cons.prems have i': "i' < length segs" "segs ! i' = Hole x" by simp_all
  show ?case
  proof (cases j)
    case 0
    with Cons.prems have s: "s = Hole x" by simp
    show ?thesis
    proof (cases "map_of ps x")
      case None
      from fillFirst_unmapped [OF None i'] show ?thesis using s i None by simp
    next
      case (Some v)
      have "map_of (delFirst x ps) x = None"
        using Cons.prems(1) by (rule map_of_delFirst_same)
      from fillFirst_unmapped [OF this i'] show ?thesis using s i Some by simp
    qed
  next
    case (Suc j')
    with Cons.prems i have j': "j' < i'" "segs ! j' = Hole x" by simp_all
    have d: "distinct (map fst (delFirst n ps))" for n
      using Cons.prems(1) by (rule delFirst_distinct)
    show ?thesis
    proof (cases s)
      case (Lit l)
      then show ?thesis using i Cons.IH [OF Cons.prems(1) j'(1) i'(1) j'(2) i'(2)] by simp
    next
      case (Hole n)
      then show ?thesis
        using i Cons.IH [OF Cons.prems(1) j'(1) i'(1) j'(2) i'(2)]
          Cons.IH [OF d j'(1) i'(1) j'(2) i'(2)]
        by (simp split: option.splits)
    qed
  qed
qed

lemma fillFirst_first:
  "map_of ps x = Some v \<Longrightarrow> i < length segs \<Longrightarrow> segs ! i = Hole x \<Longrightarrow>
   \<forall>j<i. segs ! j \<noteq> Hole x \<Longrightarrow>
   fillFirst ns ps segs ! i = Lit (encoded ns v)"
proof (induction segs arbitrary: ps i)
  case Nil
  then show ?case by simp
next
  case (Cons s segs)
  show ?case
  proof (cases i)
    case 0
    with Cons.prems show ?thesis by simp
  next
    case (Suc i')
    with Cons.prems have i': "i' < length segs" "segs ! i' = Hole x" by simp_all
    from Cons.prems(4) Suc have s: "s \<noteq> Hole x" by auto
    from Cons.prems(4) Suc have nf: "\<forall>j<i'. segs ! j \<noteq> Hole x" by auto
    show ?thesis
    proof (cases s)
      case (Lit l)
      then show ?thesis using Suc Cons.IH [OF Cons.prems(1) i' nf] by simp
    next
      case (Hole n)
      with s have "n \<noteq> x" by simp
      then have "map_of (delFirst n ps) x = Some v"
        using Cons.prems(1) by (simp add: map_of_delFirst_other)
      from Cons.IH [OF this i' nf] Cons.IH [OF Cons.prems(1) i' nf]
      show ?thesis using Hole Suc by (simp split: option.splits)
    qed
  qed
qed

lemma map_of_delFirst:
  "distinct (map fst ps) \<Longrightarrow> map_of (delFirst n ps) = (map_of ps)(n := None)"
  by (rule ext) (simp add: map_of_delFirst_same map_of_delFirst_other)

lemma fillFirst_fillMap:
  "distinct (map fst ps) \<Longrightarrow> fillFirst ns ps segs = fillMap ns (map_of ps) segs"
proof (induction segs arbitrary: ps)
  case Nil
  then show ?case by simp
next
  case (Cons s segs)
  show ?case
  proof (cases s)
    case (Lit l)
    with Cons show ?thesis by simp
  next
    case (Hole n)
    have "fillFirst ns (delFirst n ps) segs = fillMap ns (map_of (delFirst n ps)) segs"
      using Cons.prems by (intro Cons.IH delFirst_distinct)
    also have "map_of (delFirst n ps) = (map_of ps)(n := None)"
      using Cons.prems by (rule map_of_delFirst)
    finally have "fillFirst ns (delFirst n ps) segs = fillMap ns ((map_of ps)(n := None)) segs" .
    with Hole Cons.IH [OF Cons.prems] show ?thesis
      by (cases "map_of ps n") simp_all
  qed
qed

lemma fillMap_cong:
  "\<forall>n\<in>set (holes segs). m n = m' n \<Longrightarrow> fillMap ns m segs = fillMap ns m' segs"
proof (induction segs arbitrary: m m')
  case Nil
  then show ?case by simp
next
  case (Cons s segs)
  show ?case
  proof (cases s)
    case (Lit l)
    with Cons show ?thesis by simp
  next
    case (Hole n)
    with Cons.prems have n: "m n = m' n" and r: "\<forall>k\<in>set (holes segs). m k = m' k" by auto
    have u: "fillMap ns (m(n := None)) segs = fillMap ns (m'(n := None)) segs"
      using r by (intro Cons.IH) simp
    from Cons.IH [OF r] u show ?thesis using Hole n
      by (cases "m' n") simp_all
  qed
qed

lemma checkRequired_cong:
  "\<forall>n\<in>set rs. map_of a n = map_of b n \<Longrightarrow> checkRequired a rs = checkRequired b rs"
  by (induction rs) (auto simp: typeofProperty_def)

section \<open>The outcome of createUrl\<close>

lemma checkRequired_find:
  "checkRequired ps rs =
     map_option (\<lambda>q. RequiredError q (requiredMessage q (typeofProperty ps q)))
       (List.find (\<lambda>p. \<not> validParam ps p) rs)"
  by (induction rs) (auto simp: validParam_def)

lemma checkRequired_None: "checkRequired ps rs = None \<longleftrightarrow> (\<forall>p\<in>set rs. validParam ps p)"
  by (induction rs) (auto simp: validParam_def)

lemma createUrl_snd:
  "snd (createUrl newURL ns this path ps sp) = this\<lparr>extractParamsLastIndex := 0\<rparr>"
  by (simp add: createUrl_def stringMatch_def Let_def split: option.splits sum.splits)

lemma createUrl_fail:
  "checkRequired ps (extractParams False path) = Some e \<Longrightarrow>
   fst (createUrl newURL ns this path ps sp) = Inl e"
  by (cases "extractParams False path") (simp_all add: createUrl_def stringMatch_def)

lemma createUrl_ok:
  "checkRequired ps (extractParams False path) = None \<Longrightarrow>
   fst (createUrl newURL ns this path ps sp) =
     (case substitute ns path ps of
        Inl e \<Rightarrow> Inl e
      | Inr path1 \<Rightarrow>
          (case appendParams ns [] sp of
             Inl e \<Rightarrow> Inl e
           | Inr params \<Rightarrow>
               newURL (path1 @ (if params = [] then []
                                else ''?'' @ urlSearchParamsToString params))
                 (basePath this)))"
  by (cases "extractParams False path")
     (auto simp: createUrl_def stringMatch_def Let_def split: sum.splits)

lemma codePoints_plain:
  "\<forall>c\<in>set s. \<not> isLeadSurrogate c \<and> \<not> isTrailSurrogate c \<Longrightarrow> codePoints s = Some (map unat s)"
  by (induction s rule: codePoints.induct) auto

lemma codePoints_units: "codePoints (units s) = Some (map of_char s)"
proof -
  have u: "unat (of_nat (of_char c) :: 16 word) = of_char c" for c :: char
  proof -
    have "(of_char c :: nat) < 256" by simp
    also have "(256::nat) < 2 ^ LENGTH(16)" by simp
    finally show ?thesis by (intro of_nat_inverse) simp_all
  qed
  have "\<forall>c\<in>set (units s). \<not> isLeadSurrogate c \<and> \<not> isTrailSurrogate c"
  proof
    fix c assume "c \<in> set (units s)"
    then obtain d where "c = of_nat (of_char d)" by (auto simp: units_def)
    moreover have "(of_char d :: nat) < 256" by simp
    then have "\<not> 55296 \<le> (of_char d :: nat)" "\<not> 56320 \<le> (of_char d :: nat)" by linarith+
    ultimately show "\<not> isLeadSurrogate c \<and> \<not> isTrailSurrogate c"
      by (simp add: isLeadSurrogate_def isTrailSurrogate_def u)
  qed
  then have "codePoints (units s) = Some (map unat (units s))" by (rule codePoints_plain)
  then show ?thesis by (simp add: units_def u comp_def)
qed

lemma encodable_JString_units: "encodable ns (JString (units s))"
  by (simp add: encodable_def codePoints_units)

lemma encodable_primitive:
  "encodable ns (JNumber n)" "encodable ns (JBoolean b)" "encodable ns JUndefined"
  "encodable ns JNull"
  by (simp_all add: encodable_def codePoints_units)

lemmas createUrl_eval =
  createUrl_def stringMatch_def replace_def typeofProperty_def units_def
  encodeURIComponent_def encodeCodePoint_def uriUnescapedChars_def isLeadSurrogate_def
  isTrailSurrogate_def urlSearchParamsToString_def formEncode_def formSafe_def utf8_def
  percentByte_def hexDigit_def requiredMessage_def objectPrototypeFunctions_def recordURL_def

section \<open>Required parameters\<close>

text \<open>
  C1. If a placeholder name extracted from the template is absent from \<open>pathParams\<close> or
  mapped to a value that is neither a string nor a number (a boolean, say), \<open>createUrl\<close>
  throws a RequiredError: its field is the first such name in the template, its message
  names that parameter and the type found there. The outcome is the error and no URL, so
  nothing has been substituted and nothing can be sent; an absent key and a value of a
  wrong type take the same branch.
\<close>

theorem createUrl_missing_required:
  assumes "param \<in> set (extractParams False path)"
    and "map_of pathParams param = None \<or>
         (\<exists>v. map_of pathParams param = Some v \<and> typeof v \<noteq> ''string'' \<and> typeof v \<noteq> ''number'')"
  shows "\<exists>q. List.find (\<lambda>p. \<not> validParam pathParams p) (extractParams False path) = Some q \<and>
           fst (createUrl newURL numToString this path pathParams searchParams) =
             Inl (RequiredError q (requiredMessage q (typeofProperty pathParams q)))"
proof -
  from assms(2) have "\<not> validParam pathParams param"
    by (auto simp: validParam_def typeofProperty_def)
  with assms(1) obtain q where q: "List.find (\<lambda>p. \<not> validParam pathParams p) (extractParams False path) = Some q"
    by (cases "List.find (\<lambda>p. \<not> validParam pathParams p) (extractParams False path)")
       (auto simp: find_None_iff)
  then have "checkRequired pathParams (extractParams False path) =
      Some (RequiredError q (requiredMessage q (typeofProperty pathParams q)))"
    by (simp add: checkRequired_find)
  then show ?thesis using q by (simp add: createUrl_fail)
qed

theorem createUrl_missing_required_witness:
  "''x'' \<in> set (extractParams False ''/a/{x}'') \<and>
   map_of [(''x'', JBoolean True :: nat jsval)] ''x'' = Some (JBoolean True) \<and>
   fst (createUrl recordURL numberToString demoClient ''/a/{x}'' [(''x'', JBoolean True)] []) =
     Inl (RequiredError ''x''
            ''Required parameter x was undefined or had the wrong type: boolean.'') \<and>
   map_of ([] :: (string \<times> nat jsval) list) ''x'' = None \<and>
   fst (createUrl recordURL numberToString demoClient ''/a/{x}'' [] []) =
     Inl (RequiredError ''x''
            ''Required parameter x was undefined or had the wrong type: undefined.'')"
proof -
  have e: "''x'' \<in> set (extractParams False ''/a/{x}'')" by simp
  have b: "map_of [(''x'', JBoolean True :: nat jsval)] ''x'' = None \<or>
      (\<exists>v. map_of [(''x'', JBoolean True :: nat jsval)] ''x'' = Some v \<and>
           typeof v \<noteq> ''string'' \<and> typeof v \<noteq> ''number'')"
    by simp
  have a: "map_of ([] :: (string \<times> nat jsval) list) ''x'' = None \<or>
      (\<exists>v. map_of ([] :: (string \<times> nat jsval) list) ''x'' = Some v \<and>
           typeof v \<noteq> ''string'' \<and> typeof v \<noteq> ''number'')"
    by simp
  show ?thesis
    using createUrl_missing_required [OF e b, of recordURL numberToString demoClient "[]"]
      createUrl_missing_required [OF e a, of recordURL numberToString demoClient "[]"]
    by (simp add: validParam_def typeofProperty_def requiredMessage_def
          objectPrototypeFunctions_def)
qed

section \<open>The query string\<close>

text \<open>
  C2. A query value is to appear percent-encoded once. \<open>createUrl\<close> skips the entries
  whose value is \<open>undefined\<close>, encodes each remaining value with \<open>encodeURIComponent\<close> and
  hands the result to \<open>URLSearchParams\<close>, whose serializer encodes names and values again:
  the value \<open>a b\<close>, whose encoding is \<open>a%20b\<close>, is in the reference passed to the URL
  constructor as \<open>a%2520b\<close>.
\<close>

theorem createUrl_query_double_encoded:
  "appendParams numToString [] searchParams =
     (if list_all (\<lambda>e. encodable numToString (snd e)) (defined searchParams)
      then Inr (map (\<lambda>e. (fst e, encoded numToString (snd e))) (defined searchParams))
      else Inl (URIError ''URI malformed'')) \<and>
   urlSearchParamsToString
       (map (\<lambda>e. (fst e, encoded numToString (snd e))) (defined searchParams)) =
     joinWith ''&''
       (map (\<lambda>e. formEncode (fst e) @ ''='' @ formEncode (encoded numToString (snd e)))
          (defined searchParams)) \<and>
   fst (createUrl newURL numToString this ''/clients'' []
          [(''query'', JString (units ''a b''))]) =
     newURL ''/clients?query=a%2520b'' (basePath this) \<and>
   encodeURIComponent (units ''a b'') = Inr ''a%20b''"
proof -
  have "fst (createUrl newURL numToString this ''/clients'' []
          [(''query'', JString (units ''a b''))]) =
     newURL ''/clients?query=a%2520b'' (basePath this)"
    by (simp add: createUrl_eval)
  moreover have "encodeURIComponent (units ''a b'') = Inr ''a%20b''"
    by (simp add: createUrl_eval)
  ultimately show ?thesis
    by (simp add: appendParams_cases urlSearchParamsToString_def comp_def)
qed

section \<open>Substitution of placeholders\<close>

text \<open>
  C3, as stated: a template with \<open>n\<close> distinct placeholders and a mapping that covers them
  comes out as a URL with every placeholder occurrence replaced and no \<open>{...}\<close> left. The
  code replaces one occurrence for each entry of the mapping, the first it finds: in
  \<open>/a/{x}/b/{x}\<close> the second \<open>{x}\<close> stays. An entry whose name holds a closing brace can
  take the place of two placeholders at once (\<open>a}b{c\<close> in \<open>/{a}b{c}\<close>), in a template
  with nested braces an entry can destroy the placeholder of another (\<open>/{{a}/{a}\<close>), and
  a string value with a surrogate that stands alone makes \<open>encodeURIComponent\<close> throw.
\<close>

theorem createUrl_duplicate_counterexample:
  "extractParams False ''/a/{x}/b/{x}'' = [''x'', ''x''] \<and>
   fst (createUrl recordURL numberToString demoClient ''/a/{x}/b/{x}''
          [(''x'', JString (units ''1''))] []) =
     Inr (URL ''/a/1/b/{x}'' ''https://api.everhour.com'') \<and>
   extractParams False ''/{a}b{c}'' = [''a'', ''c''] \<and>
   fst (createUrl recordURL numberToString demoClient ''/{a}b{c}''
          [(''a}b{c'', JString (units ''X'')), (''a'', JString (units ''1'')),
           (''c'', JString (units ''2''))] []) =
     Inr (URL ''/X'' ''https://api.everhour.com'') \<and>
   extractParams False ''/{{a}/{a}'' = [''{a'', ''a''] \<and>
   fst (createUrl recordURL numberToString demoClient ''/{{a}/{a}''
          [(''a'', JString (units ''Y'')), (''{a'', JString (units ''X''))] []) =
     Inr (URL ''/{Y/{a}'' ''https://api.everhour.com'') \<and>
   fst (createUrl recordURL numberToString demoClient ''/a/{x}''
          [(''x'', JString [55296])] []) =
     Inl (URIError ''URI malformed'')"
  by (simp add: createUrl_eval)

text \<open>
  C3, amended: take a template made of brace-free text and placeholders \<open>{name}\<close> with
  non-empty brace-free names, each name occurring once, and a mapping none of whose keys
  holds a closing brace, all of whose values \<open>encodeURIComponent\<close> accepts, and which gives
  each placeholder a string or a number. Then, unless a query value makes
  \<open>encodeURIComponent\<close> throw, \<open>createUrl\<close> passes to the URL constructor the template
  with every placeholder replaced by the encoded string form of its value, followed by
  the query, and returns what the constructor returns, the URL or its error. That path
  holds no brace, and a template without placeholders is left as it is.
\<close>

theorem createUrl_substitutes_all:
  assumes "\<forall>s\<in>set segs. wellFormed s"
    and "distinct (holes segs)"
    and "\<forall>e\<in>set pathParams. CHR ''}'' \<notin> set (fst e)"
    and "\<forall>n\<in>set (holes segs). validParam pathParams n"
    and "\<forall>e\<in>set pathParams. encodable numToString (snd e)"
  shows "fst (createUrl newURL numToString this (render segs) pathParams searchParams) =
           (case appendParams numToString [] searchParams of
              Inl e \<Rightarrow> Inl e
            | Inr params \<Rightarrow>
                newURL (render (fillAll numToString pathParams segs) @
                        (if params = [] then [] else ''?'' @ urlSearchParamsToString params))
                  (basePath this)) \<and>
         holes (fillAll numToString pathParams segs) = [] \<and>
         braceFree (render (fillAll numToString pathParams segs)) \<and>
         (holes segs = [] \<longrightarrow> render (fillAll numToString pathParams segs) = render segs)"
proof -
  have "checkRequired pathParams (extractParams False (render segs)) = None"
    using assms(1,4) by (simp add: extractParams_render checkRequired_None)
  moreover have "substitute numToString (render segs) pathParams =
      Inr (render (fillAll numToString pathParams segs))"
    using assms(1,2,3,5)
    by (simp add: substitute_cases list_all_iff substituted_fillFirst fillFirst_fillAll)
  ultimately have "fst (createUrl newURL numToString this (render segs) pathParams searchParams) =
      (case appendParams numToString [] searchParams of
         Inl e \<Rightarrow> Inl e
       | Inr params \<Rightarrow>
           newURL (render (fillAll numToString pathParams segs) @
                   (if params = [] then [] else ''?'' @ urlSearchParamsToString params))
             (basePath this))"
    by (simp add: createUrl_ok)
  moreover have h: "holes (fillAll numToString pathParams segs) = []"
    using assms(4) by (rule fillAll_holes)
  moreover have "braceFree (render (fillAll numToString pathParams segs))"
    using fillAll_wellFormed [OF assms(1)] h by (rule render_braceFree)
  ultimately show ?thesis by (simp add: fillAll_no_holes)
qed

theorem createUrl_substitutes_all_witness:
  "list_all wellFormed [Lit ''/users/'', Hole ''userId'', Lit ''/timecards/'', Hole ''date''] \<and>
   distinct (holes [Lit ''/users/'', Hole ''userId'', Lit ''/timecards/'', Hole ''date'']) \<and>
   render [Lit ''/users/'', Hole ''userId'', Lit ''/timecards/'', Hole ''date'']
     = ''/users/{userId}/timecards/{date}'' \<and>
   list_all (\<lambda>e. encodable numberToString (snd e))
     [(''date'', JString (units ''2020/12'')), (''userId'', JNumber 4096)] \<and>
   fst (createUrl recordURL numberToString demoClient ''/users/{userId}/timecards/{date}''
          [(''date'', JString (units ''2020/12'')), (''userId'', JNumber 4096)] []) =
     Inr (URL ''/users/4096/timecards/2020%2F12'' ''https://api.everhour.com'')"
proof -
  let ?segs = "[Lit ''/users/'', Hole ''userId'', Lit ''/timecards/'', Hole ''date'']"
  let ?ps = "[(''date'', JString (units ''2020/12'')), (''userId'', JNumber (4096::nat))]"
  have 1: "\<forall>s\<in>set ?segs. wellFormed s" by (simp add: braceFree_def)
  have 2: "distinct (holes ?segs)" by simp
  have 3: "\<forall>e\<in>set ?ps. CHR ''}'' \<notin> set (fst e)" by simp
  have 4: "\<forall>n\<in>set (holes ?segs). validParam ?ps n"
    by (simp add: validParam_def typeofProperty_def)
  have 5: "\<forall>e\<in>set ?ps. encodable numberToString (snd e)"
    by (simp add: encodable_JString_units encodable_primitive)
  have n: "numberToString 4096 = ''4096''" by code_simp
  have v: "encoded numberToString (JString (units ''2020/12'')) = ''2020%2F12''"
          "encoded numberToString (JNumber 4096) = ''4096''"
    by (simp_all add: encoded_def codePoints_units n encodeCodePoint_def uriUnescapedChars_def
          utf8_def percentByte_def hexDigit_def)
  show ?thesis
    using createUrl_substitutes_all [OF 1 2 3 4 5, of recordURL demoClient "[]"] 1 2 5
    by (simp add: v list_all_iff recordURL_def)
qed

section \<open>Entries that name no placeholder\<close>

text \<open>
  C8, as stated: adding entries whose names are not placeholders of the template never
  changes the URL and never makes the call fail, whatever their values. It changes the
  URL when the added name holds a closing brace and so spans two placeholders (\<open>a}b{c\<close>
  added to \<open>/{a}b{c}\<close> gives \<open>/X\<close> instead of \<open>/1b2\<close>), and when the template nests
  braces, where an earlier replacement can create the token of the added name (\<open>x\<close> added
  to \<open>/{{p}x}\<close> gives \<open>/1\<close> instead of \<open>/{x}\<close>). It makes the call fail when the added
  value is a string with a surrogate that stands alone: every entry is encoded, used or
  not.
\<close>

theorem createUrl_extra_counterexample:
  "extractParams False ''/{a}b{c}'' = [''a'', ''c''] \<and>
   fst (createUrl recordURL numberToString demoClient ''/{a}b{c}''
          [(''a'', JString (units ''1'')), (''c'', JString (units ''2''))] []) =
     Inr (URL ''/1b2'' ''https://api.everhour.com'') \<and>
   fst (createUrl recordURL numberToString demoClient ''/{a}b{c}''
          [(''a}b{c'', JString (units ''X'')), (''a'', JString (units ''1'')),
           (''c'', JString (units ''2''))] []) =
     Inr (URL ''/X'' ''https://api.everhour.com'') \<and>
   extractParams False ''/{{p}x}'' = [''{p''] \<and>
   fst (createUrl recordURL numberToString demoClient ''/{{p}x}''
          [(''p'', JString []), (''{p'', JString (units ''z''))] []) =
     Inr (URL ''/{x}'' ''https://api.everhour.com'') \<and>
   fst (createUrl recordURL numberToString demoClient ''/{{p}x}''
          [(''p'', JString []), (''{p'', JString (units ''z'')), (''x'', JString (units ''1''))]
          []) =
     Inr (URL ''/1'' ''https://api.everhour.com'') \<and>
   extractParams False ''/tasks/{taskId}/time'' = [''taskId''] \<and>
   fst (createUrl recordURL numberToString demoClient ''/tasks/{taskId}/time''
          [(''taskId'', JString (units ''abc''))] []) =
     Inr (URL ''/tasks/abc/time'' ''https://api.everhour.com'') \<and>
   fst (createUrl recordURL numberToString demoClient ''/tasks/{taskId}/time''
          [(''taskId'', JString (units ''abc'')), (''note'', JString [55296])] []) =
     Inl (URIError ''URI malformed'')"
  by (simp add: createUrl_eval)

text \<open>
  C8, amended: take a template made of brace-free text and placeholders with non-empty
  brace-free names, and two mappings without a closing brace in any key that have the
  same value, or both none, for each placeholder name of the template, and in which the
  value of every entry of another name is one \<open>encodeURIComponent\<close> accepts. Then
  \<open>createUrl\<close> has the same outcome for both (the same URL or the same error) and leaves
  the client in the same state: entries of other names with such values are ignored.
\<close>

theorem createUrl_ignores_extra:
  assumes "\<forall>s\<in>set segs. wellFormed s"
    and "\<forall>e\<in>set pathParams. CHR ''}'' \<notin> set (fst e)"
    and "\<forall>e\<in>set extended. CHR ''}'' \<notin> set (fst e)"
    and "distinct (map fst pathParams)" and "distinct (map fst extended)"
    and "\<forall>n\<in>set (holes segs). map_of extended n = map_of pathParams n"
    and "\<forall>e\<in>set pathParams. fst e \<notin> set (holes segs) \<longrightarrow> encodable numToString (snd e)"
    and "\<forall>e\<in>set extended. fst e \<notin> set (holes segs) \<longrightarrow> encodable numToString (snd e)"
  shows "createUrl newURL numToString this (render segs) extended searchParams =
         createUrl newURL numToString this (render segs) pathParams searchParams"
proof -
  let ?P = "\<lambda>e. encodable numToString (snd e)"
  have chk: "checkRequired extended (extractParams False (render segs)) =
      checkRequired pathParams (extractParams False (render segs))"
    using assms(1,6) by (simp add: extractParams_render checkRequired_cong)
  have sub: "\<forall>e\<in>set b. ?P e" if a: "\<forall>e\<in>set a. ?P e" and da: "distinct (map fst a)"
    and db: "distinct (map fst b)"
    and ag: "\<forall>n\<in>set (holes segs). map_of a n = map_of b n"
    and ex: "\<forall>e\<in>set b. fst e \<notin> set (holes segs) \<longrightarrow> ?P e"
    for a b
  proof
    fix e assume e: "e \<in> set b"
    show "?P e"
    proof (cases "fst e \<in> set (holes segs)")
      case False
      with ex e show ?thesis by simp
    next
      case True
      have "(fst e, snd e) \<in> set b" using e by simp
      with db have "map_of b (fst e) = Some (snd e)" by (rule map_of_is_SomeI)
      with ag True have "map_of a (fst e) = Some (snd e)" by simp
      then have "(fst e, snd e) \<in> set a" by (rule map_of_SomeD)
      with a show ?thesis by auto
    qed
  qed
  have enc: "list_all ?P extended \<longleftrightarrow> list_all ?P pathParams"
    unfolding list_all_iff
    using sub [of extended pathParams] sub [of pathParams extended] assms(4-8)
    by (metis (no_types, lifting))
  have "fillFirst numToString extended segs = fillFirst numToString pathParams segs"
    using assms(4,5,6) by (simp add: fillFirst_fillMap fillMap_cong)
  then have "substituted numToString (render segs) extended =
      substituted numToString (render segs) pathParams"
    using assms(1,2,3) by (simp add: substituted_fillFirst)
  with enc have s: "substitute numToString (render segs) extended =
      substitute numToString (render segs) pathParams"
    by (simp add: substitute_cases)
  have "fst (createUrl newURL numToString this (render segs) extended searchParams) =
      fst (createUrl newURL numToString this (render segs) pathParams searchParams)"
  proof (cases "checkRequired pathParams (extractParams False (render segs))")
    case None
    then show ?thesis using chk s by (simp add: createUrl_ok)
  next
    case (Some e)
    then show ?thesis using chk by (simp add: createUrl_fail)
  qed
  then show ?thesis by (simp add: prod_eq_iff createUrl_snd)
qed

theorem createUrl_ignores_extra_witness:
  "list_all wellFormed [Lit ''/tasks/'', Hole ''taskId'', Lit ''/time''] \<and>
   render [Lit ''/tasks/'', Hole ''taskId'', Lit ''/time''] = ''/tasks/{taskId}/time'' \<and>
   createUrl recordURL numberToString demoClient ''/tasks/{taskId}/time''
     [(''userId'', JBoolean True), (''taskId'', JString (units ''abc'')), (''x'', JNull)] [] =
   createUrl recordURL numberToString demoClient ''/tasks/{taskId}/time''
     [(''taskId'', JString (units ''abc''))] [] \<and>
   fst (createUrl recordURL numberToString demoClient ''/tasks/{taskId}/time''
     [(''userId'', JBoolean True), (''taskId'', JString (units ''abc'')), (''x'', JNull)] []) =
   Inr (URL ''/tasks/abc/time'' ''https://api.everhour.com'')"
proof -
  let ?segs = "[Lit ''/tasks/'', Hole ''taskId'', Lit ''/time'']"
  let ?ps = "[(''taskId'', JString (units ''abc'') :: nat jsval)]"
  let ?ext = "[(''userId'', JBoolean True), (''taskId'', JString (units ''abc'') :: nat jsval),
               (''x'', JNull)]"
  have 1: "\<forall>s\<in>set ?segs. wellFormed s" by (simp add: braceFree_def)
  have 2: "\<forall>e\<in>set ?ps. CHR ''}'' \<notin> set (fst e)" by simp
  have 3: "\<forall>e\<in>set ?ext. CHR ''}'' \<notin> set (fst e)" by simp
  have 4: "distinct (map fst ?ps)" by simp
  have 5: "distinct (map fst ?ext)" by simp
  have 6: "\<forall>n\<in>set (holes ?segs). map_of ?ext n = map_of ?ps n" by simp
  have 7: "\<forall>e\<in>set ?ps. fst e \<notin> set (holes ?segs) \<longrightarrow> encodable numberToString (snd e)"
    by simp
  have 8: "\<forall>e\<in>set ?ext. fst e \<notin> set (holes ?segs) \<longrightarrow> encodable numberToString (snd e)"
    by (simp add: encodable_primitive)
  have v: "fst (createUrl recordURL numberToString demoClient ''/tasks/{taskId}/time'' ?ps []) =
      Inr (URL ''/tasks/abc/time'' ''https://api.everhour.com'')"
    by (simp add: createUrl_eval)
  show ?thesis
    using createUrl_ignores_extra [OF 1 2 3 4 5 6 7 8, of recordURL demoClient "[]"] 1 v
    by (simp add: list_all_iff)
qed

section \<open>A placeholder that occurs twice\<close>

text \<open>
  C10, as stated: when a name occurs more than once in the template and the mapping has a
  valid value for it, the first occurrence is substituted, every later one stays as
  \<open>{name}\<close>, and no error is raised. An entry whose name holds a closing brace can consume
  both occurrences (\<open>x}/{x\<close> in \<open>/{x}/{x}\<close>), in a template with nested braces another
  entry can destroy the first occurrence so that the second is the one substituted
  (\<open>/{a{b}/{a{b}\<close>), a missing value for another placeholder raises the RequiredError,
  and a string value with a surrogate that stands alone raises a URIError.
\<close>

theorem createUrl_first_only_counterexample:
  "extractParams False ''/{x}/{x}'' = [''x'', ''x''] \<and>
   fst (createUrl recordURL numberToString demoClient ''/{x}/{x}''
          [(''x}/{x'', JString (units ''2'')), (''x'', JString (units ''1''))] []) =
     Inr (URL ''/2'' ''https://api.everhour.com'') \<and>
   extractParams False ''/{a{b}/{a{b}'' = [''a{b'', ''a{b''] \<and>
   fst (createUrl recordURL numberToString demoClient ''/{a{b}/{a{b}''
          [(''b'', JString []), (''a{b'', JString (units ''1''))] []) =
     Inr (URL ''/{a/1'' ''https://api.everhour.com'') \<and>
   extractParams False ''/{x}/{x}/{y}'' = [''x'', ''x'', ''y''] \<and>
   fst (createUrl recordURL numberToString demoClient ''/{x}/{x}/{y}''
          [(''x'', JString (units ''1''))] []) =
     Inl (RequiredError ''y''
            ''Required parameter y was undefined or had the wrong type: undefined.'') \<and>
   fst (createUrl recordURL numberToString demoClient ''/{x}/{x}''
          [(''x'', JString [55296])] []) =
     Inl (URIError ''URI malformed'')"
  by (simp add: createUrl_eval)

text \<open>
  C10, amended: take a template made of brace-free text and placeholders with non-empty
  brace-free names, and a mapping without a closing brace in any key, all of whose values
  \<open>encodeURIComponent\<close> accepts, and which gives every placeholder a string or a number.
  Then \<open>createUrl\<close> raises no RequiredError and each entry is used for the first
  placeholder of its name only: unless a query value makes \<open>encodeURIComponent\<close> throw,
  the path passed to the URL constructor, whose URL or error \<open>createUrl\<close> returns, has the
  encoded value of a name \<open>x\<close> where \<open>x\<close> occurs first, at position \<open>i\<close>, and still
  \<open>{x}\<close> where it occurs again, at a later position \<open>j\<close>.
\<close>

theorem createUrl_first_only:
  assumes "\<forall>s\<in>set segs. wellFormed s"
    and "\<forall>e\<in>set pathParams. CHR ''}'' \<notin> set (fst e)"
    and "distinct (map fst pathParams)"
    and "\<forall>n\<in>set (holes segs). validParam pathParams n"
    and "\<forall>e\<in>set pathParams. encodable numToString (snd e)"
    and "i < j" and "j < length segs"
    and "segs ! i = Hole x" and "segs ! j = Hole x"
    and "\<forall>k<i. segs ! k \<noteq> Hole x"
  shows "\<exists>v. map_of pathParams x = Some v \<and>
           fst (createUrl newURL numToString this (render segs) pathParams searchParams) =
             (case appendParams numToString [] searchParams of
                Inl e \<Rightarrow> Inl e
              | Inr params \<Rightarrow>
                  newURL (render (fillFirst numToString pathParams segs) @
                          (if params = [] then []
                           else ''?'' @ urlSearchParamsToString params))
                    (basePath this)) \<and>
           length (fillFirst numToString pathParams segs) = length segs \<and>
           fillFirst numToString pathParams segs ! i = Lit (encoded numToString v) \<and>
           fillFirst numToString pathParams segs ! j = Hole x"
proof -
  have "x \<in> set (holes segs)"
    using assms(6,7,8)
  proof (induction segs arbitrary: i j)
    case Nil
    then show ?case by simp
  next
    case (Cons s segs)
    show ?case
    proof (cases i)
      case 0
      with Cons.prems show ?thesis by simp
    next
      case (Suc i')
      with Cons.prems obtain j' where "j = Suc j'" by (cases j) auto
      with Suc Cons.prems Cons.IH [of i' j'] show ?thesis by (cases s) simp_all
    qed
  qed
  with assms(4) obtain v where v: "map_of pathParams x = Some v"
    using validParam_Some by blast
  have "checkRequired pathParams (extractParams False (render segs)) = None"
    using assms(1,4) by (simp add: extractParams_render checkRequired_None)
  moreover have "substitute numToString (render segs) pathParams =
      Inr (render (fillFirst numToString pathParams segs))"
    using assms(1,2,5) by (simp add: substitute_cases list_all_iff substituted_fillFirst)
  ultimately have "fst (createUrl newURL numToString this (render segs) pathParams searchParams) =
      (case appendParams numToString [] searchParams of
         Inl e \<Rightarrow> Inl e
       | Inr params \<Rightarrow>
           newURL (render (fillFirst numToString pathParams segs) @
                   (if params = [] then [] else ''?'' @ urlSearchParamsToString params))
             (basePath this))"
    by (simp add: createUrl_ok)
  moreover have "fillFirst numToString pathParams segs ! i = Lit (encoded numToString v)"
    using v assms(6,7,8,10) by (intro fillFirst_first) auto
  moreover have "fillFirst numToString pathParams segs ! j = Hole x"
    using assms(3,6,7,8,9) by (rule fillFirst_later)
  ultimately show ?thesis using v by (simp add: fillFirst_length)
qed

theorem createUrl_first_only_witness:
  "list_all wellFormed [Lit ''/a/'', Hole ''x'', Lit ''/b/'', Hole ''x''] \<and>
   render [Lit ''/a/'', Hole ''x'', Lit ''/b/'', Hole ''x''] = ''/a/{x}/b/{x}'' \<and>
   fillFirst numberToString [(''x'', JString (units ''1''))]
       [Lit ''/a/'', Hole ''x'', Lit ''/b/'', Hole ''x'']
     = [Lit ''/a/'', Lit ''1'', Lit ''/b/'', Hole ''x''] \<and>
   fst (createUrl recordURL numberToString demoClient ''/a/{x}/b/{x}''
          [(''x'', JString (units ''1''))] []) =
     Inr (URL ''/a/1/b/{x}'' ''https://api.everhour.com'')"
proof -
  let ?segs = "[Lit ''/a/'', Hole ''x'', Lit ''/b/'', Hole ''x'']"
  let ?ps = "[(''x'', JString (units ''1'') :: nat jsval)]"
  have 1: "\<forall>s\<in>set ?segs. wellFormed s" by (simp add: braceFree_def)
  have 2: "\<forall>e\<in>set ?ps. CHR ''}'' \<notin> set (fst e)" by simp
  have 3: "distinct (map fst ?ps)" by simp
  have 4: "\<forall>n\<in>set (holes ?segs). validParam ?ps n"
    by (simp add: validParam_def typeofProperty_def)
  have e: "\<forall>e\<in>set ?ps. encodable numberToString (snd e)"
    by (simp add: encodable_JString_units)
  have 5: "(1::nat) < 3" by simp
  have 6: "3 < length ?segs" by simp
  have 7: "?segs ! 1 = Hole ''x''" by simp
  have 8: "?segs ! 3 = Hole ''x''" by simp
  have 9: "\<forall>k<1. ?segs ! k \<noteq> Hole ''x''" by simp
  have v: "encoded numberToString (JString (units ''1'')) = ''1''"
    by (simp add: encoded_def codePoints_units encodeCodePoint_def uriUnescapedChars_def)
  show ?thesis
    using createUrl_first_only [OF 1 2 3 4 e 5 6 7 8 9, of recordURL demoClient "[]"] 1
    by (simp add: v list_all_iff recordURL_def)
qed

section \<open>Repeated calls\<close>

text \<open>
  C9. \<open>createUrl\<close> leaves the client as it was, but for the \<open>lastIndex\<close> of the regular
  expression, which it resets to 0, the value it has in every constructed client; a
  second call with the same arguments gives the same outcome and the same state.
\<close>

theorem createUrl_deterministic:
  "snd (createUrl newURL numToString this path pathParams searchParams) =
     this\<lparr>extractParamsLastIndex := 0\<rparr> \<and>
   fst (createUrl newURL numToString
          (snd (createUrl newURL numToString this path pathParams searchParams))
          path pathParams searchParams) =
     fst (createUrl newURL numToString this path pathParams searchParams) \<and>
   snd (createUrl newURL numToString
          (snd (createUrl newURL numToString this path pathParams searchParams))
          path pathParams searchParams) =
     snd (createUrl newURL numToString this path pathParams searchParams) \<and>
   (\<exists>c. EverhourApiClient apiKey = Inr c \<and>
        snd (createUrl newURL numToString c path pathParams searchParams) = c)"
proof -
  have f: "fst (createUrl newURL numToString (c\<lparr>extractParamsLastIndex := 0\<rparr>) path pathParams
              searchParams) =
      fst (createUrl newURL numToString c path pathParams searchParams)" for c
    by (simp add: createUrl_def stringMatch_def Let_def split: option.splits sum.splits)
  show ?thesis
    by (simp add: createUrl_snd f EverhourApiClient_def Let_def seal_def setProperty_def
          freeze_def)
qed

section \<open>The headers\<close>

text \<open>
  C5, as stated: the API key of a client is not empty. The constructor checks nothing:
  the empty key gives a client whose \<open>X-Api-Key\<close> header is empty.
\<close>

theorem client_empty_key_counterexample:
  "EverhourApiClient '''' =
     Inr \<lparr>basePath = ''https://api.everhour.com'', version = ''1.2'', extractParamsLastIndex = 0,
          headers = \<lparr>properties = [(''Content-Type'', ''application/json''),
                                     (''X-Api-Key'', ''''),
                                     (''X-Accept-Version'', ''1.2'')],
                      extensible = False, configurable = False, writable = False\<rparr>\<rparr>"
  by (simp add: EverhourApiClient_def Let_def seal_def setProperty_def freeze_def)

text \<open>
  C5, amended: for every key, empty or not, the constructor returns a client whose
  headers are exactly \<open>Content-Type: application/json\<close>, \<open>X-Api-Key\<close> with the given key
  and \<open>X-Accept-Version: 1.2\<close>. The header object is frozen: every write to it is
  refused, a delete is refused or finds nothing to delete, \<open>createUrl\<close> returns the client
  with the same headers and every request carries them.
\<close>

theorem client_headers_fixed:
  "\<exists>this. EverhourApiClient apiKey = Inr this \<and>
     properties (headers this) = [(''Content-Type'', ''application/json''),
                                  (''X-Api-Key'', apiKey),
                                  (''X-Accept-Version'', ''1.2'')] \<and>
     (\<forall>name v. \<exists>e. setProperty (headers this) name v = Inl e) \<and>
     (\<forall>name. deleteProperty (headers this) name = Inr (headers this) \<or>
             (\<exists>e. deleteProperty (headers this) name = Inl e)) \<and>
     (\<forall>path pathParams searchParams.
        headers (snd (createUrl newURL numToString this path pathParams searchParams)) =
          headers this) \<and>
     (\<forall>m payload. requestHeaders (requestOptions stringify this m payload) = headers this)"
proof -
  have r: "requestHeaders (requestOptions stringify c m payload) = headers c" for c m payload
    by (cases payload) (simp_all add: requestOptions_def)
  show ?thesis
    by (simp add: EverhourApiClient_def Let_def seal_def setProperty_def freeze_def
          deleteProperty_def createUrl_snd r)
qed

section \<open>The request and its outcome\<close>

text \<open>
  C6. The options of a request hold the given method and the client's headers, and a
  body exactly when the payload is not \<open>undefined\<close>: the body is then the serialized
  payload. These are the options \<open>apiRequest\<close> passes to the transport.
\<close>

theorem requestOptions_body:
  "requestOptions stringify this m payload =
     \<lparr>requestMethod = m, requestHeaders = headers this, body = map_option stringify payload\<rparr> \<and>
   apiRequest fetch jsonParse stringify this m u payload =
     (case fetch u \<lparr>requestMethod = m, requestHeaders = headers this,
                    body = map_option stringify payload\<rparr> of
        Inl e \<Rightarrow> Inl e
      | Inr r \<Rightarrow> if 200 \<le> status r \<and> status r < 300 then jsonParse (responseText r)
                else Inl (Error (statusMessage r)))"
proof -
  have "requestOptions stringify this m payload =
     \<lparr>requestMethod = m, requestHeaders = headers this, body = map_option stringify payload\<rparr>"
    by (cases payload) (simp_all add: requestOptions_def)
  then show ?thesis by (simp add: apiRequest_def)
qed

text \<open>
  C7, as stated: a payload given to a GET call is ignored and the request has no body.
  The overloads do not admit a payload with GET, but at run time nothing looks at the
  method: the payload is serialized into the body.
\<close>

theorem get_payload_counterexample:
  "body (requestOptions numberToString demoClient GET (Some 7)) = Some ''7'' \<and>
   body (requestOptions numberToString demoClient GET None) = None"
  by (simp add: requestOptions_def)

text \<open>
  C7, amended: a GET call without payload, the only form the overloads admit, carries
  no body; a payload passed to GET all the same is serialized into the body as it is for
  POST.
\<close>

theorem get_payload_serialized:
  "body (requestOptions stringify this GET None) = None \<and>
   body (requestOptions stringify this GET (Some p)) = Some (stringify p) \<and>
   body (requestOptions stringify this GET (Some p)) =
     body (requestOptions stringify this POST (Some p))"
  by (simp add: requestOptions_def)



end
